theory Spec2Isabelle
  imports Complex_Main "HOL-Library.Multiset"
begin

section \<open>Python objects shared between caller and callee\<close>

text \<open>
  A Python variable holds a reference to an object. A list passed to a function is the
  caller's own object, so whatever the callee stores into it is seen by the caller. The
  store maps every reference to the list object it denotes; a function of the notebook
  takes the store and the reference it was called with, and returns the store it leaves
  behind together with its return value.

  The element type is a parameter. For \<open>get_counts\<close> the elements are dictionary keys
  (hashable values, compared by \<open>==\<close>); for \<open>double_list\<close> they are the numbers and
  strings of type \<open>pyval\<close> below.
\<close>

type_synonym addr = nat

type_synonym 'a store = "addr \<Rightarrow> 'a list"

section \<open>Part 04: \<open>get_counts\<close>\<close>

text \<open>
  \<^verbatim>\<open>
  def get_counts(s):
      counts = {}
      for x in s:
          if x in counts:
              counts[x] += 1
          else:
              counts[x] = 1
      pairs = counts.items()
      return list(pairs)
  \<close>
  A Python dictionary keeps its keys in the order in which they were inserted; storing
  under a key that is already present replaces the value and leaves the key where it is.
  The dictionary is therefore an association list with one entry per key, new keys
  appended at the end. Python integers are unbounded: the counts are of type \<open>int\<close>.
\<close>

type_synonym ('k, 'v) dict = "('k \<times> 'v) list"

definition dict_empty :: "('k, 'v) dict" where
  "dict_empty = []"

definition dict_getitem :: "('k, 'v) dict \<Rightarrow> 'k \<Rightarrow> 'v option" where
  "dict_getitem d k = map_of d k"

definition dict_contains :: "('k, 'v) dict \<Rightarrow> 'k \<Rightarrow> bool" where
  "dict_contains d k = (dict_getitem d k \<noteq> None)"

fun dict_setitem :: "('k, 'v) dict \<Rightarrow> 'k \<Rightarrow> 'v \<Rightarrow> ('k, 'v) dict" where
  "dict_setitem [] k v = [(k, v)]"
| "dict_setitem ((k', v') # d) k v =
     (if k' = k then (k', v) # d else (k', v') # dict_setitem d k v)"

definition dict_items :: "('k, 'v) dict \<Rightarrow> ('k \<times> 'v) list" where
  "dict_items d = d"

text \<open>
  The body of the \<open>for\<close> loop, for one element \<open>x\<close>. \<open>counts[x] += 1\<close> reads the
  value stored under \<open>x\<close> and stores its successor; it runs only after \<open>x in counts\<close>
  has succeeded, so the key is there and the read cannot fail.
\<close>

definition get_counts_body :: "('a, int) dict \<Rightarrow> 'a \<Rightarrow> ('a, int) dict" where
  "get_counts_body counts x =
     (if dict_contains counts x
      then (case dict_getitem counts x of
              Some c \<Rightarrow> dict_setitem counts x (c + 1)
            | None \<Rightarrow> counts)
      else dict_setitem counts x 1)"

text \<open>
  The \<open>for\<close> statement walks the list object by position: the iterator holds an index,
  and each round reads the element at that index as long as the index is below the
  current length of the list. The store is threaded through the loop as the code sees it.
\<close>

function get_counts_loop ::
  "'a store \<Rightarrow> addr \<Rightarrow> nat \<Rightarrow> ('a, int) dict \<Rightarrow> 'a store \<times> ('a, int) dict" where
  "get_counts_loop h s i counts =
     (if i < length (h s)
      then get_counts_loop h s (Suc i) (get_counts_body counts (h s ! i))
      else (h, counts))"
  by pat_completeness auto
termination
  by (relation "measure (\<lambda>(h, s, i, counts). length (h s) - i)") auto

declare get_counts_loop.simps [simp del]

definition get_counts :: "'a store \<Rightarrow> addr \<Rightarrow> 'a store \<times> ('a \<times> int) list" where
  "get_counts h s =
     (let (h', counts) = get_counts_loop h s 0 dict_empty;
          pairs = dict_items counts
      in (h', pairs))"

subsection \<open>What the claim calls first occurrence and number of occurrences\<close>

text \<open>
  \<open>first_index xs x\<close> is the position of the first occurrence of \<open>x\<close> in \<open>xs\<close>
  (the length of \<open>xs\<close> when there is none); the number of occurrences is the library's
  \<open>count_list\<close>.
\<close>

fun first_index :: "'a list \<Rightarrow> 'a \<Rightarrow> nat" where
  "first_index [] x = 0"
| "first_index (y # ys) x = (if x = y then 0 else Suc (first_index ys x))"

text \<open>The distinct elements of a list, each at the place of its first occurrence.\<close>

definition first_occurrences :: "'a list \<Rightarrow> 'a list" where
  "first_occurrences xs = rev (remdups (rev xs))"

definition count_pairs :: "'a list \<Rightarrow> ('a \<times> int) list" where
  "count_pairs xs = map (\<lambda>x. (x, int (count_list xs x))) (first_occurrences xs)"

section \<open>Part 04: \<open>double_list\<close>\<close>

text \<open>
  \<^verbatim>\<open>
  def double_list(some_list):
      for pos in range(len(some_list)):
          some_list[pos] *= 2
  \<close>
  The notebook calls it on a list of integers and on a list of strings, the two kinds of
  element modelled here (Python integers are unbounded, hence \<open>int\<close>). \<open>v * k\<close> is the product for an integer and \<open>k\<close> copies of the
  string, one after the other, for a string (none when \<open>k\<close> is not positive). Both kinds
  of value are immutable, so \<open>some_list[pos] *= 2\<close> reads the element, multiplies it and
  stores the product at the same position of the same list object.
\<close>

datatype pyval = PyInt int | PyStr string

fun py_mul :: "pyval \<Rightarrow> int \<Rightarrow> pyval" where
  "py_mul (PyInt a) k = PyInt (a * k)"
| "py_mul (PyStr t) k = PyStr (concat (replicate (nat k) t))"

datatype py_error = IndexError

text \<open>Reading and writing a list at a position raise \<open>IndexError\<close> out of range.\<close>

definition list_getitem :: "'a list \<Rightarrow> nat \<Rightarrow> py_error + 'a" where
  "list_getitem xs pos = (if pos < length xs then Inr (xs ! pos) else Inl IndexError)"

definition list_setitem :: "'a list \<Rightarrow> nat \<Rightarrow> 'a \<Rightarrow> py_error + 'a list" where
  "list_setitem xs pos v = (if pos < length xs then Inr (xs[pos := v]) else Inl IndexError)"

text \<open>
  \<open>range(len(some_list))\<close> is evaluated once, before the first round: the loop runs
  \<open>pos\<close> from 0 up to the length \<open>n\<close> the list had then.
\<close>

function double_list_loop ::
  "pyval store \<Rightarrow> addr \<Rightarrow> nat \<Rightarrow> nat \<Rightarrow> py_error + pyval store" where
  "double_list_loop h some_list pos n =
     (if pos < n
      then (case list_getitem (h some_list) pos of
              Inl e \<Rightarrow> Inl e
            | Inr v \<Rightarrow>
                (case list_setitem (h some_list) pos (py_mul v 2) of
                   Inl e \<Rightarrow> Inl e
                 | Inr xs \<Rightarrow> double_list_loop (h(some_list := xs)) some_list (Suc pos) n))
      else Inr h)"
  by pat_completeness auto
termination
  by (relation "measure (\<lambda>(h, some_list, pos, n). n - pos)") auto

declare double_list_loop.simps [simp del]

text \<open>A function that ends without \<open>return\<close> returns \<open>None\<close>, here the value \<open>()\<close>.\<close>

definition double_list :: "pyval store \<Rightarrow> addr \<Rightarrow> py_error + (pyval store \<times> unit)" where
  "double_list h some_list =
     (case double_list_loop h some_list 0 (length (h some_list)) of
        Inl e \<Rightarrow> Inl e
      | Inr h' \<Rightarrow> Inr (h', ()))"

section \<open>Part 04: sorting with a key function\<close>

text \<open>
  \<^verbatim>\<open>
  sorted(strings, key = lambda x: len(x))
  sorted(student_tuples, key = lambda s: s[2])
  \<close>
  The builtin \<open>sorted\<close> builds a new list from the items of its argument, ordered by
  their keys, and keeps items of equal key in the order they had: a stable sort by key,
  which is what \<open>sort_key\<close> is. It reads its argument and stores nothing into it.
\<close>

definition py_sorted :: "('a \<Rightarrow> 'k::linorder) \<Rightarrow> 'a store \<Rightarrow> addr \<Rightarrow> 'a store \<times> 'a list" where
  "py_sorted key h xs = (h, sort_key key (h xs))"

definition sorted_by_len :: "string store \<Rightarrow> addr \<Rightarrow> string store \<times> string list" where
  "sorted_by_len h strings = py_sorted (\<lambda>x. length x) h strings"

definition sorted_by_third ::
  "('a \<times> 'b \<times> 'c::linorder) store \<Rightarrow> addr \<Rightarrow>
     ('a \<times> 'b \<times> 'c) store \<times> ('a \<times> 'b \<times> 'c) list" where
  "sorted_by_third h student_tuples = py_sorted (\<lambda>s. snd (snd s)) h student_tuples"

section \<open>Part 04: the module \<open>fibo.py\<close>\<close>

text \<open>
  \<^verbatim>\<open>
  def fib(n):    # print Fibonacci series up to n
      a, b = 0, 1
      print(b, end=" ")
      while (n >= 2):
          f = a + b
          print(f, end=" ")
          a, b = b, f
          n -= 1

  def fib2(n):   # return Fibonacci series up to n
      a, b = 0, 1
      result = [1]
      while (n >= 2):
          f = a + b
          result.append(f)
          a, b = b, f
          n -= 1
      return result
  \<close>
  Standard output is the list of the numbers printed so far: each \<open>print(v, end=" ")\<close>
  writes one number, followed by a blank. \<open>fib\<close> takes the output written before the
  call and returns the output after it.
\<close>

function fib_while :: "int \<Rightarrow> int \<Rightarrow> int \<Rightarrow> int list \<Rightarrow> int list" where
  "fib_while n a b out =
     (if n \<ge> 2
      then (let f = a + b in fib_while (n - 1) b f (out @ [f]))
      else out)"
  by pat_completeness auto
termination
  by (relation "measure (\<lambda>(n, a, b, out). nat n)") auto

declare fib_while.simps [simp del]

definition fib :: "int \<Rightarrow> int list \<Rightarrow> int list" where
  "fib n out = (let a = 0; b = 1 in fib_while n a b (out @ [b]))"

function fib2_while :: "int \<Rightarrow> int \<Rightarrow> int \<Rightarrow> int list \<Rightarrow> int list" where
  "fib2_while n a b result =
     (if n \<ge> 2
      then (let f = a + b in fib2_while (n - 1) b f (result @ [f]))
      else result)"
  by pat_completeness auto
termination
  by (relation "measure (\<lambda>(n, a, b, result). nat n)") auto

declare fib2_while.simps [simp del]

definition fib2 :: "int \<Rightarrow> int list" where
  "fib2 n = (let a = 0; b = 1; result = [1] in fib2_while n a b result)"

text \<open>The Fibonacci numbers 1, 1, 2, 3, 5, 8, 13, ... counted from 1.\<close>

fun fibonacci :: "nat \<Rightarrow> int" where
  "fibonacci 0 = 0"
| "fibonacci (Suc 0) = 1"
| "fibonacci (Suc (Suc k)) = fibonacci k + fibonacci (Suc k)"

definition first_fibonacci :: "nat \<Rightarrow> int list" where
  "first_fibonacci n = map fibonacci [1..<Suc n]"

section \<open>The notebooks and the world outside the kernel\<close>













subsection \<open>The ensemble notebook, cell by cell\<close>








subsection \<open>The functions notebook (Part 04), cell by cell\<close>







subsection \<open>What a cell may do to the world\<close>



section \<open>The statistics and the figures of the ensemble notebook\<close>





















section \<open>The train-test split of the ensemble notebook\<close>

text \<open>
  \<^verbatim>\<open>
  X = forest.drop(columns=['Id', 'Cover_Type']).values
  y = forest['Cover_Type'].values

  X_train, X_test, y_train, y_test = train_test_split(X, y, test_size=0.2, random_state=42)
  \<close>
  \<open>train_test_split\<close> is the library's, a parameter here: it takes the two arrays, the
  share of the test set, the seed (\<open>None\<close> when the caller gives none) and the state of
  the generator of random numbers it falls back on without a seed, and returns the four
  arrays. The notebook's cell passes 0.2 and 42. The text above the cell speaks of a split
  with proportions 2/3 and 1/3.
\<close>

type_synonym ('a, 'b, 'g) splitter =
  "'a list \<Rightarrow> 'b list \<Rightarrow> real \<Rightarrow> nat option \<Rightarrow> 'g
     \<Rightarrow> 'a list \<times> 'a list \<times> 'b list \<times> 'b list"

definition forest_split ::
  "('a, 'b, 'g) splitter \<Rightarrow> 'a list \<Rightarrow> 'b list \<Rightarrow> 'g
     \<Rightarrow> 'a list \<times> 'a list \<times> 'b list \<times> 'b list" where
  "forest_split train_test_split X y g = train_test_split X y (2 / 10) (Some 42) g"

text \<open>
  What the library documents of \<open>train_test_split\<close>, as far as the notebook relies on it.
  For arrays of equal length and a share strictly between 0 and 1, the test arrays have
  the share times the number of rows, rounded up, and the training arrays have the rest;
  the rows of \<open>X\<close> stay with their labels, and training and test rows together are the
  rows given. With a seed, the result does not depend on the state of the generator.
\<close>

definition sklearn_contract :: "('a, 'b, 'g) splitter \<Rightarrow> bool" where
  "sklearn_contract train_test_split =
     ((\<forall>X y share seed g.
         length X = length y \<and> 0 < share \<and> share < 1 \<longrightarrow>
         (case train_test_split X y share seed g of
            (X_train, X_test, y_train, y_test) \<Rightarrow>
              length X_test = nat \<lceil>share * real (length X)\<rceil> \<and>
              length y_test = length X_test \<and>
              length X_train = length X - length X_test \<and>
              length y_train = length X_train \<and>
              mset (zip X_train y_train) + mset (zip X_test y_test) = mset (zip X y))) \<and>
      (\<forall>X y share seed g g'.
         train_test_split X y share (Some seed) g = train_test_split X y share (Some seed) g'))"

text \<open>
  A splitter that keeps the order of the rows and takes the test rows from the end: one
  of the functions that meet the contract.
\<close>

definition ordered_split :: "('a, 'b, 'g) splitter" where
  "ordered_split X y share seed g =
     (let n_test = nat \<lceil>share * real (length X)\<rceil>;
          n_train = length X - n_test
      in (take n_train X, drop n_train X, take n_train y, drop n_train y))"

section \<open>Properties of \<open>get_counts\<close>\<close>

lemma first_occurrences_Nil: "first_occurrences [] = []"
  by (simp add: first_occurrences_def)

lemma first_occurrences_snoc:
  "first_occurrences (xs @ [x]) =
     (if x \<in> set xs then first_occurrences xs else first_occurrences xs @ [x])"
  by (simp add: first_occurrences_def)

lemma set_first_occurrences: "set (first_occurrences xs) = set xs"
  by (simp add: first_occurrences_def)

lemma distinct_first_occurrences: "distinct (first_occurrences xs)"
  by (simp add: first_occurrences_def)

lemma first_index_less: "x \<in> set xs \<Longrightarrow> first_index xs x < length xs"
  by (induction xs) auto

lemma first_index_absent: "x \<notin> set xs \<Longrightarrow> first_index xs x = length xs"
  by (induction xs) auto

lemma first_index_append_left:
  "x \<in> set xs \<Longrightarrow> first_index (xs @ ys) x = first_index xs x"
  by (induction xs) auto

lemma first_index_append_right:
  "x \<notin> set xs \<Longrightarrow> first_index (xs @ ys) x = length xs + first_index ys x"
  by (induction xs) auto

lemma nth_first_index: "x \<in> set xs \<Longrightarrow> xs ! first_index xs x = x"
  by (induction xs) auto

lemma first_index_least: "i < first_index xs x \<Longrightarrow> xs ! i \<noteq> x"
proof (induction xs arbitrary: i)
  case Nil
  then show ?case by simp
next
  case (Cons y ys)
  then show ?case by (cases i) (auto split: if_splits)
qed

lemma sorted_first_occurrences:
  "sorted_wrt (\<lambda>x y. first_index xs x < first_index xs y) (first_occurrences xs)"
proof (induction xs rule: rev_induct)
  case Nil
  show ?case by (simp add: first_occurrences_Nil)
next
  case (snoc a xs)
  have old: "sorted_wrt (\<lambda>x y. first_index (xs @ [a]) x < first_index (xs @ [a]) y)
               (first_occurrences xs)"
    by (rule sorted_wrt_mono_rel [OF _ snoc.IH])
       (simp add: set_first_occurrences first_index_append_left)
  show ?case
  proof (cases "a \<in> set xs")
    case True
    with old show ?thesis by (simp add: first_occurrences_snoc)
  next
    case False
    have "first_index (xs @ [a]) y < first_index (xs @ [a]) a" if "y \<in> set xs" for y
      using that False
      by (simp add: first_index_append_left first_index_append_right first_index_less)
    with old False show ?thesis
      by (simp add: first_occurrences_snoc sorted_wrt_append set_first_occurrences)
  qed
qed

lemma map_of_count_pairs:
  "map_of (count_pairs xs) x = (if x \<in> set xs then Some (int (count_list xs x)) else None)"
  by (simp add: count_pairs_def map_of_map_restrict restrict_map_def set_first_occurrences)

lemma dict_setitem_fresh: "k \<notin> fst ` set d \<Longrightarrow> dict_setitem d k v = d @ [(k, v)]"
  by (induction d) auto

lemma dict_setitem_map:
  "distinct xs \<Longrightarrow> k \<in> set xs \<Longrightarrow>
   dict_setitem (map (\<lambda>x. (x, f x)) xs) k v = map (\<lambda>x. (x, if x = k then v else f x)) xs"
  by (induction xs) auto

lemma get_counts_body_count_pairs:
  "get_counts_body (count_pairs xs) x = count_pairs (xs @ [x])"
proof (cases "x \<in> set xs")
  case True
  have "get_counts_body (count_pairs xs) x =
          dict_setitem (count_pairs xs) x (int (count_list xs x) + 1)"
    using True by (simp add: get_counts_body_def dict_contains_def dict_getitem_def
        map_of_count_pairs)
  also have "\<dots> = map (\<lambda>y. (y, if y = x then int (count_list xs x) + 1
                                else int (count_list xs y))) (first_occurrences xs)"
    unfolding count_pairs_def using True
    by (simp add: dict_setitem_map distinct_first_occurrences set_first_occurrences)
  also have "\<dots> = count_pairs (xs @ [x])"
    using True by (auto simp: count_pairs_def first_occurrences_snoc)
  finally show ?thesis .
next
  case False
  have "get_counts_body (count_pairs xs) x = dict_setitem (count_pairs xs) x 1"
    using False by (simp add: get_counts_body_def dict_contains_def dict_getitem_def
        map_of_count_pairs)
  also have "\<dots> = count_pairs xs @ [(x, 1)]"
  proof (rule dict_setitem_fresh)
    have "fst ` set (count_pairs xs) = set xs"
      by (simp add: count_pairs_def image_image set_first_occurrences)
    with False show "x \<notin> fst ` set (count_pairs xs)" by simp
  qed
  also have "\<dots> = count_pairs (xs @ [x])"
    using False
    by (auto simp: count_pairs_def first_occurrences_snoc set_first_occurrences)
  finally show ?thesis .
qed

lemma get_counts_loop_inv:
  "i \<le> length (h s) \<Longrightarrow>
   get_counts_loop h s i (count_pairs (take i (h s))) = (h, count_pairs (h s))"
proof (induction "length (h s) - i" arbitrary: i)
  case 0
  then have "i = length (h s)" by simp
  then show ?case by (simp add: get_counts_loop.simps [of h s "length (h s)"])
next
  case (Suc n)
  then have less: "i < length (h s)" by simp
  have "get_counts_loop h s i (count_pairs (take i (h s))) =
          get_counts_loop h s (Suc i) (count_pairs (take (Suc i) (h s)))"
    using less
    by (simp add: get_counts_loop.simps [of h s i] get_counts_body_count_pairs
        take_Suc_conv_app_nth)
  also have "\<dots> = (h, count_pairs (h s))"
    using Suc.hyps less by (intro Suc.hyps(1)) auto
  finally show ?case .
qed

lemma get_counts_eq: "get_counts h s = (h, count_pairs (h s))"
proof -
  have "count_pairs (take 0 (h s)) = dict_empty"
    by (simp add: count_pairs_def dict_empty_def first_occurrences_Nil)
  with get_counts_loop_inv [of 0 h s]
  have "get_counts_loop h s 0 dict_empty = (h, count_pairs (h s))" by simp
  then show ?thesis by (simp add: get_counts_def dict_items_def)
qed

text \<open>
  Claim C2. For every list \<open>s\<close>, \<open>get_counts(s)\<close> returns a list of (element, count)
  pairs with exactly one pair for each distinct element of \<open>s\<close> (the first components
  are pairwise distinct and are exactly the elements of \<open>s\<close>), the count of a pair is
  the number of occurrences of its element in \<open>s\<close>, the pairs stand in the order of the
  first occurrences of their elements in \<open>s\<close>, and on the empty list the result is the
  empty list.
\<close>

theorem get_counts_correct:
  "distinct (map fst (snd (get_counts h s))) \<and>
   fst ` set (snd (get_counts h s)) = set (h s) \<and>
   (\<forall>(x, c) \<in> set (snd (get_counts h s)). c = int (count_list (h s) x)) \<and>
   sorted_wrt (\<lambda>p q. first_index (h s) (fst p) < first_index (h s) (fst q))
     (snd (get_counts h s)) \<and>
   snd (get_counts (h(s := [])) s) = []"
proof -
  have "distinct (map fst (count_pairs (h s)))"
    by (simp add: count_pairs_def comp_def distinct_first_occurrences)
  moreover have "fst ` set (count_pairs (h s)) = set (h s)"
    by (simp add: count_pairs_def image_image set_first_occurrences)
  moreover have "\<forall>(x, c) \<in> set (count_pairs (h s)). c = int (count_list (h s) x)"
    by (auto simp: count_pairs_def)
  moreover have "sorted_wrt (\<lambda>p q. first_index (h s) (fst p) < first_index (h s) (fst q))
                   (count_pairs (h s))"
    by (simp add: count_pairs_def sorted_wrt_map sorted_first_occurrences)
  moreover have "count_pairs ((h(s := [])) s) = []"
    by (simp add: count_pairs_def first_occurrences_Nil)
  ultimately show ?thesis
    by (simp only: get_counts_eq snd_conv)
qed

text \<open>The call of the notebook: \<open>get_counts(['a', 'c', 'd', 'a', 'c', 'a', 'd', 'b'])\<close>.\<close>

theorem get_counts_correct_witness:
  "snd (get_counts (\<lambda>a. [''a'', ''c'', ''d'', ''a'', ''c'', ''a'', ''d'', ''b'']) 0) =
     [(''a'', 3), (''c'', 2), (''d'', 2), (''b'', 1)] \<and>
   (''a'', 3) \<in>
     set (snd (get_counts (\<lambda>a. [''a'', ''c'', ''d'', ''a'', ''c'', ''a'', ''d'', ''b'']) 0)) \<and>
   (3::int) = int (count_list [''a'', ''c'', ''d'', ''a'', ''c'', ''a'', ''d'', ''b''] ''a'')"
proof -
  let ?h = "\<lambda>a::addr. [''a'', ''c'', ''d'', ''a'', ''c'', ''a'', ''d'', ''b'']"
  have run: "snd (get_counts ?h 0) = [(''a'', 3), (''c'', 2), (''d'', 2), (''b'', 1)]"
    by code_simp
  have "\<forall>(x, c) \<in> set (snd (get_counts ?h 0)). c = int (count_list (?h 0) x)"
    using get_counts_correct [of ?h 0] by blast
  with run show ?thesis by simp
qed

section \<open>Properties of \<open>double_list\<close>\<close>

lemma double_list_loop_inv:
  "pos \<le> n \<Longrightarrow> n = length (h s) \<Longrightarrow>
   double_list_loop h s pos n =
     Inr (h(s := take pos (h s) @ map (\<lambda>v. py_mul v 2) (drop pos (h s))))"
proof (induction h s pos n rule: double_list_loop.induct)
  case (1 h s pos n)
  show ?case
  proof (cases "pos < n")
    case True
    let ?xs = "(h s)[pos := py_mul (h s ! pos) 2]"
    have "double_list_loop h s pos n = double_list_loop (h(s := ?xs)) s (Suc pos) n"
      using True "1.prems"
      by (subst double_list_loop.simps) (simp add: list_getitem_def list_setitem_def)
    also have "\<dots> = Inr ((h(s := ?xs))(s := take (Suc pos) ((h(s := ?xs)) s) @
                     map (\<lambda>v. py_mul v 2) (drop (Suc pos) ((h(s := ?xs)) s))))"
      using True "1.prems"
      by (intro "1.IH") (simp_all add: list_getitem_def list_setitem_def)
    also have "\<dots> = Inr (h(s := take pos (h s) @ map (\<lambda>v. py_mul v 2) (drop pos (h s))))"
      using True "1.prems"
      by (simp add: take_Suc_conv_app_nth Cons_nth_drop_Suc [symmetric])
    finally show ?thesis .
  next
    case False
    with "1.prems" have "pos = length (h s)" by simp
    with False show ?thesis
      by (subst double_list_loop.simps) simp
  qed
qed

lemma double_list_eq:
  "double_list h s = Inr (h(s := map (\<lambda>v. py_mul v 2) (h s)), ())"
  using double_list_loop_inv [of 0 "length (h s)" h s]
  by (simp add: double_list_def)

text \<open>
  Claim C3. For every list (of numbers and strings), \<open>double_list\<close> raises nothing and
  returns \<open>None\<close>, and it changes the list object it was given: in the store it leaves,
  the list has its original length, and the element at each position is the original
  element at that position times 2, which is twice the number for a number and the
  string followed by itself for a string. No other object of the store is touched.
\<close>

theorem double_list_correct:
  "\<exists>h'. double_list h s = Inr (h', ()) \<and>
        length (h' s) = length (h s) \<and>
        (\<forall>pos < length (h s).
           h' s ! pos = py_mul (h s ! pos) 2 \<and>
           (case h s ! pos of
              PyInt a \<Rightarrow> h' s ! pos = PyInt (2 * a)
            | PyStr t \<Rightarrow> h' s ! pos = PyStr (t @ t))) \<and>
        (\<forall>a. a \<noteq> s \<longrightarrow> h' a = h a)"
  by (auto simp: double_list_eq numeral_2_eq_2 split: pyval.splits)

text \<open>
  The two calls of the notebook, on \<open>[1, 3, 5, 7]\<close> at reference 0 while the list of
  strings sits at another reference.
\<close>

theorem double_list_correct_witness:
  "(1::nat) < length [PyInt 1, PyInt 3, PyInt 5, PyInt 7] \<and> (1::addr) \<noteq> 0 \<and>
   (\<exists>h'. double_list (\<lambda>a. if a = 0 then [PyInt 1, PyInt 3, PyInt 5, PyInt 7]
                            else [PyStr ''pippo'', PyStr ''pluto'', PyStr ''paperino'']) 0
           = Inr (h', ()) \<and>
         h' 0 ! 1 = PyInt 6 \<and>
         h' 1 = [PyStr ''pippo'', PyStr ''pluto'', PyStr ''paperino''])"
proof -
  let ?h = "\<lambda>a::addr. if a = 0 then [PyInt 1, PyInt 3, PyInt 5, PyInt 7]
                      else [PyStr ''pippo'', PyStr ''pluto'', PyStr ''paperino'']"
  from double_list_correct [of ?h 0] obtain h' where
    run: "double_list ?h 0 = Inr (h', ())" and
    elems: "\<forall>pos < length (?h 0). h' 0 ! pos = py_mul (?h 0 ! pos) 2 \<and>
           (case ?h 0 ! pos of
              PyInt a \<Rightarrow> h' 0 ! pos = PyInt (2 * a)
            | PyStr t \<Rightarrow> h' 0 ! pos = PyStr (t @ t))" and
    others: "\<forall>a. a \<noteq> 0 \<longrightarrow> h' a = ?h a"
    by blast
  from elems have "h' 0 ! 1 = PyInt 6" by simp
  moreover from others have "h' 1 = [PyStr ''pippo'', PyStr ''pluto'', PyStr ''paperino'']"
    by simp
  ultimately show ?thesis using run by simp
qed

text \<open>
  Claim C8. \<open>get_counts\<close> never changes its argument: the store it returns is the store
  it was given, so the list \<open>s\<close> is after the call what it was before, element for
  element. \<open>double_list\<close> does change its argument: after \<open>double_list(s)\<close> on
  \<open>[1, 3, 5, 7]\<close> the same list object holds \<open>[2, 6, 10, 14]\<close>.
\<close>

theorem get_counts_frame:
  "fst (get_counts h s) = h \<and> fst (get_counts h s) s = h s \<and>
   (\<exists>h'. double_list (\<lambda>a. [PyInt 1, PyInt 3, PyInt 5, PyInt 7]) 0 = Inr (h', ()) \<and>
         h' 0 = [PyInt 2, PyInt 6, PyInt 10, PyInt 14])"
  by (simp add: get_counts_eq double_list_eq)

section \<open>Properties of sorting with a key\<close>

text \<open>
  Claim C4. For every list of strings, \<open>sorted(strings, key = lambda x: len(x))\<close> is a
  permutation of the list in nondecreasing order of length; for every list of triples,
  \<open>sorted(tuples, key = lambda s: s[2])\<close> is a permutation of the list in nondecreasing
  order of the third component; neither call changes the list it is given.
\<close>

theorem sorted_key_correct:
  "fst (sorted_by_len h strings) = h \<and>
   mset (snd (sorted_by_len h strings)) = mset (h strings) \<and>
   sorted (map length (snd (sorted_by_len h strings))) \<and>
   fst (sorted_by_third g student_tuples) = g \<and>
   mset (snd (sorted_by_third g student_tuples)) = mset (g student_tuples) \<and>
   sorted (map (\<lambda>s. snd (snd s)) (snd (sorted_by_third g student_tuples)))"
  by (simp add: sorted_by_len_def sorted_by_third_def py_sorted_def)

section \<open>Properties of \<open>fib\<close> and \<open>fib2\<close>\<close>

lemma fib_while_eq: "fib_while n a b out = fib2_while n a b out"
proof (induction n a b out rule: fib_while.induct)
  case (1 n a b out)
  show ?case
  proof (cases "n \<ge> 2")
    case True
    then show ?thesis
      using "1.IH" [OF True refl]
      by (subst fib_while.simps, subst fib2_while.simps) (simp add: Let_def)
  next
    case False
    then show ?thesis
      by (subst fib_while.simps, subst fib2_while.simps) simp
  qed
qed

lemma fib2_while_append:
  "fib2_while n a b (out @ result) = out @ fib2_while n a b result"
proof (induction n a b result rule: fib2_while.induct)
  case (1 n a b result)
  show ?case
  proof (cases "n \<ge> 2")
    case True
    then show ?thesis
      using "1.IH" [OF True refl]
      by (subst fib2_while.simps, subst (2) fib2_while.simps) (simp add: Let_def)
  next
    case False
    then show ?thesis
      by (subst fib2_while.simps, subst (2) fib2_while.simps) simp
  qed
qed

lemma fib2_while_fibonacci:
  "fib2_while n (fibonacci k) (fibonacci (Suc k)) result =
     result @ map fibonacci [Suc (Suc k)..<Suc k + nat n]"
proof (induction "nat n" arbitrary: n k result)
  case 0
  then show ?case by (subst fib2_while.simps) simp
next
  case (Suc m)
  show ?case
  proof (cases "n \<ge> 2")
    case True
    have "fib2_while n (fibonacci k) (fibonacci (Suc k)) result =
            fib2_while (n - 1) (fibonacci (Suc k)) (fibonacci (Suc (Suc k)))
              (result @ [fibonacci (Suc (Suc k))])"
      using True by (subst fib2_while.simps) (simp add: Let_def)
    also have "\<dots> = (result @ [fibonacci (Suc (Suc k))]) @
                  map fibonacci [Suc (Suc (Suc k))..<Suc (Suc k) + nat (n - 1)]"
      using Suc.hyps(2) by (intro Suc.hyps(1)) simp
    also have "\<dots> = result @ map fibonacci [Suc (Suc k)..<Suc k + nat n]"
    proof -
      have eq: "Suc (Suc k) + nat (n - 1) = Suc k + nat n" using True by simp
      have "Suc (Suc k) < Suc k + nat n" using True by simp
      then have step: "[Suc (Suc k)..<Suc k + nat n] =
                         Suc (Suc k) # [Suc (Suc (Suc k))..<Suc k + nat n]"
        by (rule upt_conv_Cons)
      show ?thesis
        by (simp only: eq step list.simps(9) append_Cons append_Nil append_assoc)
    qed
    finally show ?thesis .
  next
    case False
    then have "nat n \<le> 1" by simp
    with False show ?thesis by (subst fib2_while.simps) simp
  qed
qed

lemma fib_eq: "fib n out = out @ fib2 n"
  using fib2_while_append [of n 0 1 out "[1]"] by (simp add: fib_def fib2_def fib_while_eq)

lemma fib2_eq: "fib2 n = [1] @ map fibonacci [2..<1 + nat n]"
  using fib2_while_fibonacci [of n 0 "[1]"] by (simp add: fib2_def numeral_2_eq_2)

lemma first_fibonacci_eq:
  "n \<ge> 1 \<Longrightarrow> first_fibonacci n = [1] @ map fibonacci [2..<1 + n]"
proof -
  assume "n \<ge> 1"
  then have "Suc 0 < Suc n" by simp
  then have "[Suc 0..<Suc n] = Suc 0 # [Suc (Suc 0)..<Suc n]"
    by (rule upt_conv_Cons)
  then have "map fibonacci [Suc 0..<Suc n] =
               fibonacci (Suc 0) # map fibonacci [Suc (Suc 0)..<Suc n]"
    by (simp only: list.simps(9))
  then show ?thesis
    by (simp add: first_fibonacci_def numeral_2_eq_2 del: upt_Suc)
qed


text \<open>
  Claim C9. For every integer \<open>n\<close>, the numbers \<open>fib(n)\<close> prints (after whatever was
  printed before) are the list \<open>fib2(n)\<close> returns; that list is the first \<open>n\<close> Fibonacci
  numbers 1, 1, 2, 3, 5, ... when \<open>n \<ge> 2\<close>, and the single number 1 when \<open>n < 2\<close>,
  zero and the negative integers included.
\<close>

theorem fib_fib2:
  "fib n out = out @ fib2 n \<and>
   (n \<ge> 2 \<longrightarrow> fib2 n = first_fibonacci (nat n)) \<and>
   (n < 2 \<longrightarrow> fib2 n = [1])"
proof -
  have "fib2 n = first_fibonacci (nat n)" if "n \<ge> 2"
  proof -
    from that have "nat n \<ge> 1" by simp
    then show ?thesis by (simp only: fib2_eq first_fibonacci_eq)
  qed
  moreover have "fib2 n = [1]" if "n < 2"
  proof -
    from that have "[2..<1 + nat n] = []" by simp
    then show ?thesis by (simp add: fib2_eq)
  qed
  ultimately show ?thesis by (simp add: fib_eq)
qed

text \<open>The call of the notebook, \<open>fibo.fib(5)\<close>, and the calls with 0 and with -3.\<close>

theorem fib_fib2_witness:
  "(5::int) \<ge> 2 \<and> fib 5 [] = [1, 1, 2, 3, 5] \<and> fib2 5 = [1, 1, 2, 3, 5] \<and>
   (0::int) < 2 \<and> fib 0 [] = [1] \<and> fib2 0 = [1] \<and>
   (-3::int) < 2 \<and> fib (-3) [] = [1] \<and> fib2 (-3) = [1]"
proof -
  have five: "first_fibonacci (nat 5) = [1, 1, 2, 3, 5]"
    by code_simp
  from fib_fib2 [of 5 "[]"] fib_fib2 [of 0 "[]"] fib_fib2 [of "-3" "[]"] five
  show ?thesis by simp
qed

section \<open>Properties of the notebooks as programs in the world\<close>



























section \<open>Properties of the statistics and the figures\<close>






section \<open>Properties of the train-test split\<close>

lemma ordered_split_contract: "sklearn_contract (ordered_split :: ('a, 'b, 'g) splitter)"
proof -
  have sizes: "(case ordered_split X y share seed g of
            (X_train, X_test, y_train, y_test) \<Rightarrow>
              length X_test = nat \<lceil>share * real (length X)\<rceil> \<and>
              length y_test = length X_test \<and>
              length X_train = length X - length X_test \<and>
              length y_train = length X_train \<and>
              mset (zip X_train y_train) + mset (zip X_test y_test) = mset (zip X y))"
    if len: "length X = length y" and pos: "0 < share" and lt: "share < 1"
    for X :: "'a list" and y :: "'b list" and share seed and g :: 'g
  proof -
    let ?k = "nat \<lceil>share * real (length X)\<rceil>"
    have "share * real (length X) \<le> 1 * real (length X)"
      by (rule mult_right_mono) (use lt in simp_all)
    then have "share * real (length X) \<le> real (length X)"
      by (simp only: mult_1)
    then have "\<lceil>share * real (length X)\<rceil> \<le> int (length X)"
      by (simp add: ceiling_le_iff)
    then have k: "?k \<le> length X" by linarith
    have "mset (zip (take (length X - ?k) X) (take (length X - ?k) y)) +
          mset (zip (drop (length X - ?k) X) (drop (length X - ?k) y)) = mset (zip X y)"
      by (metis append_take_drop_id mset_append take_zip drop_zip)
    with k len show ?thesis by (simp add: ordered_split_def Let_def)
  qed
  show ?thesis
    unfolding sklearn_contract_def
  proof (intro conjI allI impI)
    fix X :: "'a list" and y :: "'b list" and share :: real and seed :: "nat option" and g :: 'g
    assume "length X = length y \<and> 0 < share \<and> share < 1"
    then show "(case ordered_split X y share seed g of
            (X_train, X_test, y_train, y_test) \<Rightarrow>
              length X_test = nat \<lceil>share * real (length X)\<rceil> \<and>
              length y_test = length X_test \<and>
              length X_train = length X - length X_test \<and>
              length y_train = length X_train \<and>
              mset (zip X_train y_train) + mset (zip X_test y_test) = mset (zip X y))"
      by (elim conjE) (rule sizes)
  next
    fix X :: "'a list" and y :: "'b list" and share :: real and seed :: nat and g g' :: 'g
    show "ordered_split X y share (Some seed) g = ordered_split X y share (Some seed) g'"
      by (simp add: ordered_split_def)
  qed
qed

text \<open>
  Claim C10. The split of the forest cover data is made with \<open>test_size=0.2\<close> and
  \<open>random_state=42\<close>. With a library that splits as documented, the test set receives
  a fifth of the rows (rounded up) and the training set the rest: exactly 20% and 80%
  when the number of rows is a multiple of 5, which is then not one third and two
  thirds; for the 15120 rows of the data set, 3024 and 12096. The split is
  deterministic: it does not depend on the state of the random generator, so two runs on
  the same data give the same partition.
\<close>

theorem forest_split_sizes:
  assumes contract: "sklearn_contract train_test_split" and len: "length X = length y"
  shows "(case forest_split train_test_split X y g of
            (X_train, X_test, y_train, y_test) \<Rightarrow>
              length X_test = nat \<lceil>real (length X) / 5\<rceil> \<and>
              length y_test = length X_test \<and>
              length X_train = length X - length X_test \<and>
              length y_train = length X_train \<and>
              (5 dvd length X \<longrightarrow>
                 5 * length X_test = length X \<and> 5 * length X_train = 4 * length X) \<and>
              (5 dvd length X \<and> 0 < length X \<longrightarrow> 3 * length X_test \<noteq> length X) \<and>
              (length X = 15120 \<longrightarrow> length X_test = 3024 \<and> length X_train = 12096)) \<and>
         forest_split train_test_split X y g' = forest_split train_test_split X y g"
proof -
  obtain X_train X_test y_train y_test where
    split: "train_test_split X y (2 / 10) (Some 42) g = (X_train, X_test, y_train, y_test)"
    by (cases "train_test_split X y (2 / 10) (Some 42) g") auto
  have
    "(case train_test_split X y (2 / 10) (Some 42) g of
        (X_train, X_test, y_train, y_test) \<Rightarrow>
          length X_test = nat \<lceil>(2 / 10) * real (length X)\<rceil> \<and>
          length y_test = length X_test \<and>
          length X_train = length X - length X_test \<and>
          length y_train = length X_train \<and>
          mset (zip X_train y_train) + mset (zip X_test y_test) = mset (zip X y))"
    using contract [unfolded sklearn_contract_def, THEN conjunct1, rule_format,
        of X y "2 / 10" "Some 42" g] len
    by simp
  with split have test: "length X_test = nat \<lceil>real (length X) / 5\<rceil>"
    and rest: "length y_test = length X_test" "length X_train = length X - length X_test"
      "length y_train = length X_train"
    by simp_all
  have five: "5 * length X_test = length X" if "5 dvd length X"
  proof -
    from that obtain k where k: "length X = 5 * k" by (auto simp: dvd_def)
    then have "real (length X) / 5 = real k" by simp
    with test k show ?thesis by simp
  qed
  have det: "forest_split train_test_split X y g' = forest_split train_test_split X y g"
    using contract unfolding sklearn_contract_def forest_split_def by blast
  have big: "length X_test = 3024 \<and> length X_train = 12096" if "length X = 15120"
    using five that rest by simp
  from test rest five big det split show ?thesis
    by (auto simp: forest_split_def)
qed

text \<open>Five rows and the order-keeping splitter: four rows to train on, one to test.\<close>

theorem forest_split_sizes_witness:
  "sklearn_contract (ordered_split :: (nat, bool, unit) splitter) \<and>
   length [10, 20, 30, 40, 50 :: nat] = length [True, False, True, False, True] \<and>
   length [10, 20, 30, 40, 50 :: nat] = 5 \<and> (5::nat) dvd 5 \<and>
   forest_split ordered_split [10, 20, 30, 40, 50 :: nat] [True, False, True, False, True] () =
     ([10, 20, 30, 40], [50], [True, False, True, False], [True]) \<and>
   length (fst (snd (forest_split ordered_split [10, 20, 30, 40, 50 :: nat]
      [True, False, True, False, True] ()))) = 1"
proof -
  have run: "forest_split ordered_split [10, 20, 30, 40, 50 :: nat]
      [True, False, True, False, True] () =
     ([10, 20, 30, 40], [50], [True, False, True, False], [True])"
    by (simp add: forest_split_def ordered_split_def Let_def)
  have c: "sklearn_contract (ordered_split :: (nat, bool, unit) splitter)"
    by (rule ordered_split_contract)
  from forest_split_sizes [OF c, of "[10, 20, 30, 40, 50]" "[True, False, True, False, True]" "()" "()"]
  have "length (fst (snd (forest_split ordered_split [10, 20, 30, 40, 50 :: nat]
      [True, False, True, False, True] ()))) = 1"
    by (auto split: prod.splits)
  with run c show ?thesis by simp
qed

section \<open>The functions the notebooks define themselves\<close>



end
